theory Spec2Isabelle
  imports Main
begin

section \<open>The best buy and sell times of \<open>C/bot.c\<close>\<close>

text \<open>
  The function under verification is \<open>findBestBuySellTimes\<close> of \<open>C/bot.c\<close>:

  \<^verbatim>\<open>
  void findBestBuySellTimes(float prices[], int n, int *buyTime, int *sellTime) {
      float minPrice = prices[0];
      int minTime = 0;
      float maxProfit = 0;
      *buyTime = 0;
      *sellTime = 0;
      for (int i = 1; i < n; i++) {
          if (prices[i] < minPrice) { minPrice = prices[i]; minTime = i; }
          float profit = prices[i] - minPrice;
          if (profit > maxProfit) { maxProfit = profit; *buyTime = minTime; *sellTime = i; }
      }
  }
  \<close>

  Prices are C \<open>float\<close>s. The model is polymorphic in the type \<open>'a\<close> of prices, which
  carries a linear order, a subtraction and a zero; the code uses nothing else. A linear
  order leaves NaN out (the spec puts NaN and the infinities out of contract). No general
  theorem below assumes that subtraction is exact: each one names the laws of subtraction
  that it uses as premises, and these laws hold for the integers, the rationals and the
  reals as well as for rounded subtraction on finite IEEE 754 numbers.

  The counters \<open>i\<close>, \<open>n\<close>, \<open>minTime\<close> and the two result cells are C \<open>int\<close>s, modelled
  by \<open>int\<close>: the only arithmetic on them is \<open>i++\<close> under the guard \<open>i < n\<close>, which cannot
  leave the range of \<open>int\<close>.
\<close>

subsection \<open>Memory and local variables\<close>

text \<open>
  The memory the function can reach: the array its first argument points to, and the two
  cells its last two arguments point to (distinct objects, as at the call in \<open>main\<close>).
\<close>

record 'a mem =
  prices :: "'a list"
  buyTime :: int
  sellTime :: int

text \<open>The local variables that live across iterations of the loop.\<close>

record 'a locals =
  minPrice :: 'a
  minTime :: int
  maxProfit :: 'a

text \<open>
  \<open>rd a i\<close> is the read \<open>a[i]\<close>. A read outside the array is undefined behaviour in C;
  the model makes it \<open>None\<close>, and \<open>None\<close> then is the result of the whole call.
\<close>

definition rd :: "'a list \<Rightarrow> int \<Rightarrow> 'a option" where
  "rd a i = (if 0 \<le> i \<and> i < int (length a) then Some (a ! nat i) else None)"

subsection \<open>The loop body and the loop\<close>

text \<open>
  One iteration of the \<open>for\<close> loop at index \<open>i\<close>, where \<open>p\<close> is the value of
  \<open>prices[i]\<close> (the body reads it up to three times and writes nothing to the array in
  between).
\<close>

definition body :: "int \<Rightarrow> 'a::{linorder,minus} \<Rightarrow> 'a locals \<times> 'a mem \<Rightarrow> 'a locals \<times> 'a mem" where
  "body i p c =
     (let l = fst c; m = snd c;
          l1 = (if p < minPrice l then l\<lparr>minPrice := p, minTime := i\<rparr> else l);
          profit = p - minPrice l1
      in if profit > maxProfit l1
         then (l1\<lparr>maxProfit := profit\<rparr>, m\<lparr>buyTime := minTime l1, sellTime := i\<rparr>)
         else (l1, m))"

function loop :: "int \<Rightarrow> int \<Rightarrow> 'a::{linorder,minus} locals \<times> 'a mem \<Rightarrow> ('a locals \<times> 'a mem) option" where
  "loop n i c =
     (if i < n
      then (case rd (prices (snd c)) i of
              None \<Rightarrow> None
            | Some p \<Rightarrow> loop n (i + 1) (body i p c))
      else Some c)"
  by pat_completeness auto
termination
  by (relation "measure (\<lambda>(n, i, c). nat (n - i))") auto

declare loop.simps [simp del]

subsection \<open>The function\<close>

text \<open>
  The call \<open>findBestBuySellTimes(prices, n, &buyTime, &sellTime)\<close> in memory \<open>m\<close>. The C
  function returns nothing; the model returns the memory at exit together with the
  local variables at exit, so that the spec's \<open>profit\<close> (the final \<open>maxProfit\<close>) can be
  spoken about.
\<close>

definition findBestBuySellTimes :: "'a::{linorder,minus,zero} mem \<Rightarrow> int \<Rightarrow> ('a locals \<times> 'a mem) option" where
  "findBestBuySellTimes m n =
     (case rd (prices m) 0 of
        None \<Rightarrow> None
      | Some p0 \<Rightarrow>
          loop n 1 (\<lparr>minPrice = p0, minTime = 0, maxProfit = 0\<rparr>,
                    m\<lparr>buyTime := 0, sellTime := 0\<rparr>))"

section \<open>Loop invariants\<close>

text \<open>
  The invariants of the loop, for the array \<open>a\<close> and the next index \<open>i\<close>; \<open>c\<close> is the
  pair of the local variables and the memory. They are stated for the proofs only.

  \<open>inv_min\<close>: \<open>minTime\<close> is the earliest index below \<open>i\<close> that holds the least price
  seen so far, and \<open>minPrice\<close> is that price.
\<close>

definition inv_min :: "'a::{linorder,minus} list \<Rightarrow> int \<Rightarrow> 'a locals \<times> 'a mem \<Rightarrow> bool" where
  "inv_min a i c \<longleftrightarrow>
     0 \<le> minTime (fst c) \<and> minTime (fst c) < i \<and>
     minPrice (fst c) = a ! nat (minTime (fst c)) \<and>
     (\<forall>k. 0 \<le> k \<and> k < i \<longrightarrow> minPrice (fst c) \<le> a ! nat k) \<and>
     (\<forall>k. 0 \<le> k \<and> k < minTime (fst c) \<longrightarrow> minPrice (fst c) < a ! nat k)"

text \<open>
  \<open>inv_best\<close>: the result cells are ordered and lie below \<open>i\<close>, \<open>maxProfit\<close> is not
  negative, and \<open>buyTime\<close> is the earliest index that holds the least price up to
  \<open>sellTime\<close>.
\<close>

definition inv_best :: "'a::{linorder,minus,zero} list \<Rightarrow> int \<Rightarrow> 'a locals \<times> 'a mem \<Rightarrow> bool" where
  "inv_best a i c \<longleftrightarrow>
     0 \<le> buyTime (snd c) \<and> buyTime (snd c) \<le> sellTime (snd c) \<and> sellTime (snd c) < i \<and>
     0 \<le> maxProfit (fst c) \<and>
     (\<forall>k. 0 \<le> k \<and> k \<le> sellTime (snd c) \<longrightarrow> a ! nat (buyTime (snd c)) \<le> a ! nat k) \<and>
     (\<forall>k. 0 \<le> k \<and> k < buyTime (snd c) \<longrightarrow> a ! nat (buyTime (snd c)) < a ! nat k)"

text \<open>
  \<open>inv_frame\<close>: the memory differs from the memory \<open>m\<close> at entry in the two result cells
  at most.
\<close>

definition inv_frame :: "'a mem \<Rightarrow> 'a locals \<times> 'a mem \<Rightarrow> bool" where
  "inv_frame m c \<longleftrightarrow> snd c = m\<lparr>buyTime := buyTime (snd c), sellTime := sellTime (snd c)\<rparr>"

text \<open>
  \<open>inv_profit\<close>: \<open>maxProfit\<close> is the difference of the prices at the two result cells.
  \<open>inv_glob\<close>: no pair of indices below \<open>i\<close> gives more than \<open>maxProfit\<close>.
  \<open>inv_pos\<close>: either nothing was recorded, or the recorded pair is a strict rise.
\<close>

definition inv_profit :: "'a::{linorder,minus} list \<Rightarrow> 'a locals \<times> 'a mem \<Rightarrow> bool" where
  "inv_profit a c \<longleftrightarrow>
     maxProfit (fst c) = a ! nat (sellTime (snd c)) - a ! nat (buyTime (snd c))"

definition inv_glob :: "'a::{linorder,minus} list \<Rightarrow> int \<Rightarrow> 'a locals \<times> 'a mem \<Rightarrow> bool" where
  "inv_glob a i c \<longleftrightarrow>
     (\<forall>b s. 0 \<le> b \<and> b \<le> s \<and> s < i \<longrightarrow> a ! nat s - a ! nat b \<le> maxProfit (fst c))"

definition inv_pos :: "'a::{linorder,minus,zero} list \<Rightarrow> 'a locals \<times> 'a mem \<Rightarrow> bool" where
  "inv_pos a c \<longleftrightarrow>
     (maxProfit (fst c) = 0 \<and> buyTime (snd c) = 0 \<and> sellTime (snd c) = 0) \<or>
     (0 < maxProfit (fst c) \<and> buyTime (snd c) < sellTime (snd c) \<and>
      a ! nat (buyTime (snd c)) < a ! nat (sellTime (snd c)))"

section \<open>The loop rule\<close>

text \<open>
  A property that holds at loop entry and that every iteration inside the array
  preserves holds at loop exit; the loop returns, and the array is as before.
\<close>

lemma loop_rule:
  assumes "P i c" and "prices (snd c) = a" and "0 \<le> i" and "i \<le> n" and "n \<le> int (length a)"
    and step: "\<And>j d. i \<le> j \<Longrightarrow> j < n \<Longrightarrow> P j d \<Longrightarrow> prices (snd d) = a \<Longrightarrow> P (j + 1) (body j (a ! nat j) d)"
  shows "\<exists>c'. loop n i c = Some c' \<and> P n c' \<and> prices (snd c') = a"
  using assms
proof (induction n i c rule: loop.induct)
  case (1 n i c)
  show ?case
  proof (cases "i < n")
    case False
    with 1 show ?thesis by (simp add: loop.simps)
  next
    case True
    have r: "rd (prices (snd c)) i = Some (a ! nat i)"
      using 1 True by (simp add: rd_def)
    have p: "prices (snd (body i (a ! nat i) c)) = a"
      using 1 by (simp add: body_def Let_def)
    have "\<exists>c'. loop n (i + 1) (body i (a ! nat i) c) = Some c' \<and> P n c' \<and> prices (snd c') = a"
    proof (rule "1.IH"[OF True r _ p])
      show "P (i + 1) (body i (a ! nat i) c)" using 1 True by simp
    qed (use 1 True in auto)
    then show ?thesis using True r by (subst loop.simps) simp
  qed
qed

lemma prices_body: "prices (snd (body i p c)) = prices (snd c)"
  by (simp add: body_def Let_def)

text \<open>
  When the array is shorter than \<open>n\<close> the loop runs into a read outside the array.
\<close>

lemma loop_None:
  assumes "0 \<le> i" and "i \<le> int (length (prices (snd c)))" and "int (length (prices (snd c))) < n"
  shows "loop n i c = None"
  using assms
proof (induction n i c rule: loop.induct)
  case (1 n i c)
  show ?case
  proof (cases "i < int (length (prices (snd c)))")
    case False
    with 1 show ?thesis by (subst loop.simps) (simp add: rd_def)
  next
    case True
    with 1 have r: "rd (prices (snd c)) i = Some (prices (snd c) ! nat i)" and "i < n"
      by (simp_all add: rd_def)
    with 1 True have "loop n (i + 1) (body i (prices (snd c) ! nat i) c) = None"
      by (simp add: prices_body)
    with r \<open>i < n\<close> show ?thesis by (subst loop.simps) simp
  qed
qed

section \<open>The body preserves the invariants\<close>

lemma le_succ_cases: "k \<le> i \<Longrightarrow> k < i \<or> k = (i::int)"
  by arith

lemma body_inv_min:
  assumes "inv_min a i c" and "1 \<le> i"
  shows "inv_min a (i + 1) (body i (a ! nat i) c)"
  using assms unfolding inv_min_def body_def Let_def
  by (auto dest: le_succ_cases)

lemma body_inv_best:
  assumes "inv_min a i c" and "inv_best a i c" and "1 \<le> i"
  shows "inv_best a (i + 1) (body i (a ! nat i) c)"
  using assms unfolding inv_min_def inv_best_def body_def Let_def
  by (auto dest: le_succ_cases)

lemma body_inv_frame:
  assumes "inv_frame m c"
  shows "inv_frame m (body i p c)"
proof -
  obtain b s where "snd c = m\<lparr>buyTime := b, sellTime := s\<rparr>"
    using assms unfolding inv_frame_def by blast
  then show ?thesis
    unfolding inv_frame_def body_def Let_def by simp
qed

lemma body_inv_profit:
  assumes "inv_min a i c" and "inv_profit a c"
  shows "inv_profit a (body i (a ! nat i) c)"
  using assms unfolding inv_min_def inv_profit_def body_def Let_def
  by auto

text \<open>
  The global bound needs one law of subtraction: it is antitone in its second argument.
\<close>

lemma body_inv_glob:
  fixes a :: "'a::{linorder,minus} list"
  assumes sub_anti: "\<And>x y z :: 'a. y \<le> z \<Longrightarrow> x - z \<le> x - y"
    and "inv_min a i c" and "inv_glob a i c" and "1 \<le> i"
  shows "inv_glob a (i + 1) (body i (a ! nat i) c)"
proof -
  let ?c' = "body i (a ! nat i) c"
  have m: "inv_min a (i + 1) ?c'"
    using assms by (simp add: body_inv_min)
  have grow: "maxProfit (fst c) \<le> maxProfit (fst ?c')"
    unfolding body_def Let_def by auto
  have new: "a ! nat i - minPrice (fst ?c') \<le> maxProfit (fst ?c')"
    unfolding body_def Let_def by auto
  show ?thesis
    unfolding inv_glob_def
  proof (intro allI impI)
    fix b s
    assume bs: "0 \<le> b \<and> b \<le> s \<and> s < i + 1"
    show "a ! nat s - a ! nat b \<le> maxProfit (fst ?c')"
    proof (cases "s < i")
      case True
      with bs \<open>inv_glob a i c\<close> have "a ! nat s - a ! nat b \<le> maxProfit (fst c)"
        unfolding inv_glob_def by blast
      with grow show ?thesis by (auto intro: order_trans)
    next
      case False
      with bs have s: "s = i" by arith
      from bs have "0 \<le> b \<and> b < i + 1" by arith
      with m have "minPrice (fst ?c') \<le> a ! nat b"
        unfolding inv_min_def by blast
      then have "a ! nat i - a ! nat b \<le> a ! nat i - minPrice (fst ?c')"
        by (rule sub_anti)
      with new s show ?thesis by (auto intro: order_trans)
    qed
  qed
qed

text \<open>
  That a recorded pair is a strict rise needs one law: a positive difference comes from
  a strictly larger minuend.
\<close>

lemma body_inv_pos:
  fixes a :: "'a::{linorder,minus,zero} list"
  assumes sub_pos: "\<And>x y :: 'a. 0 < y - x \<Longrightarrow> x < y"
    and "inv_min a i c" and "inv_best a i c" and "inv_pos a c" and "1 \<le> i"
  shows "inv_pos a (body i (a ! nat i) c)"
proof (cases "a ! nat i - minPrice (fst (body i (a ! nat i) c)) > maxProfit (fst c)")
  case False
  then have "snd (body i (a ! nat i) c) = snd c"
    and "maxProfit (fst (body i (a ! nat i) c)) = maxProfit (fst c)"
    unfolding body_def Let_def by (auto split: if_splits)
  with \<open>inv_pos a c\<close> show ?thesis
    unfolding inv_pos_def by simp
next
  case True
  let ?l1 = "fst (body i (a ! nat i) c)"
  have mp: "minPrice ?l1 = (if a ! nat i < minPrice (fst c) then a ! nat i else minPrice (fst c))"
    unfolding body_def Let_def by auto
  from \<open>inv_best a i c\<close> have "0 \<le> maxProfit (fst c)"
    unfolding inv_best_def by simp
  with True have "0 < a ! nat i - minPrice ?l1" by simp
  then have lt: "minPrice ?l1 < a ! nat i" by (rule sub_pos)
  with mp have keep: "\<not> a ! nat i < minPrice (fst c)" by (auto split: if_splits)
  with True mp have upd: "body i (a ! nat i) c =
      ((fst c)\<lparr>maxProfit := a ! nat i - minPrice (fst c)\<rparr>,
       (snd c)\<lparr>buyTime := minTime (fst c), sellTime := i\<rparr>)"
    unfolding body_def Let_def by auto
  from \<open>inv_min a i c\<close> have "minTime (fst c) < i" "0 \<le> minTime (fst c)"
    and "minPrice (fst c) = a ! nat (minTime (fst c))"
    unfolding inv_min_def by simp_all
  with upd lt mp keep True \<open>0 \<le> maxProfit (fst c)\<close> show ?thesis
    unfolding inv_pos_def by auto
qed

section \<open>The call\<close>

text \<open>
  With \<open>n \<le> 1\<close> the loop is not entered; with \<open>1 \<le> n\<close> and \<open>n\<close> elements in the array the
  call returns and the invariants hold at exit, together with any further invariant \<open>Q\<close>
  of the loop.
\<close>

lemma call_small:
  assumes "prices m \<noteq> []" and "n \<le> 1"
  shows "findBestBuySellTimes m n =
    Some (\<lparr>minPrice = prices m ! 0, minTime = 0, maxProfit = 0\<rparr>, m\<lparr>buyTime := 0, sellTime := 0\<rparr>)"
  using assms by (simp add: findBestBuySellTimes_def rd_def loop.simps)

lemma call_inv_with:
  fixes m :: "'a::{linorder,minus,zero} mem"
  assumes n: "1 \<le> n" "n \<le> int (length (prices m))"
    and init: "Q 1 (\<lparr>minPrice = prices m ! 0, minTime = 0, maxProfit = 0\<rparr>, m\<lparr>buyTime := 0, sellTime := 0\<rparr>)"
    and step: "\<And>j d. 1 \<le> j \<Longrightarrow> j < n \<Longrightarrow> inv_min (prices m) j d \<Longrightarrow> inv_best (prices m) j d \<Longrightarrow> Q j d
                 \<Longrightarrow> Q (j + 1) (body j (prices m ! nat j) d)"
  shows "\<exists>l m'. findBestBuySellTimes m n = Some (l, m') \<and> prices m' = prices m \<and>
           inv_min (prices m) n (l, m') \<and> inv_best (prices m) n (l, m') \<and> inv_frame m (l, m') \<and> Q n (l, m')"
proof -
  let ?a = "prices m"
  let ?c0 = "(\<lparr>minPrice = ?a ! 0, minTime = 0, maxProfit = 0\<rparr>, m\<lparr>buyTime := 0, sellTime := 0\<rparr>)"
  let ?P = "\<lambda>i c. inv_min ?a i c \<and> inv_best ?a i c \<and> inv_frame m c \<and> Q i c"
  have r0: "rd ?a 0 = Some (?a ! 0)"
    using n by (auto simp add: rd_def)
  have p0: "?P 1 ?c0"
    using init by (simp add: inv_min_def inv_best_def inv_frame_def)
  have "\<exists>c'. loop n 1 ?c0 = Some c' \<and> ?P n c' \<and> prices (snd c') = ?a"
  proof (rule loop_rule[where P = ?P])
    fix j d
    assume "1 \<le> j" "j < n" "?P j d" "prices (snd d) = ?a"
    then show "?P (j + 1) (body j (?a ! nat j) d)"
      by (simp add: body_inv_min body_inv_best body_inv_frame step)
  qed (use n p0 in simp_all)
  then obtain c' where "loop n 1 ?c0 = Some c'" "?P n c'" "prices (snd c') = ?a"
    by blast
  then have "findBestBuySellTimes m n = Some (fst c', snd c') \<and> prices (snd c') = ?a \<and>
           inv_min ?a n (fst c', snd c') \<and> inv_best ?a n (fst c', snd c') \<and>
           inv_frame m (fst c', snd c') \<and> Q n (fst c', snd c')"
    using r0 by (simp add: findBestBuySellTimes_def)
  then show ?thesis by blast
qed

lemma call_inv:
  fixes m :: "'a::{linorder,minus,zero} mem"
  assumes "1 \<le> n" "n \<le> int (length (prices m))"
  shows "\<exists>l m'. findBestBuySellTimes m n = Some (l, m') \<and> prices m' = prices m \<and>
           inv_min (prices m) n (l, m') \<and> inv_best (prices m) n (l, m') \<and> inv_frame m (l, m')"
  using call_inv_with[where Q = "\<lambda>_ _. True", OF assms] by simp

lemma call_cells:
  "findBestBuySellTimes (m\<lparr>buyTime := b, sellTime := s\<rparr>) n = findBestBuySellTimes m n"
  by (simp add: findBestBuySellTimes_def split: option.split)

lemma call_None:
  assumes "prices m = [] \<or> int (length (prices m)) < n"
  shows "findBestBuySellTimes m n = None"
proof (cases "prices m = []")
  case True
  then show ?thesis by (simp add: findBestBuySellTimes_def rd_def)
next
  case False
  with assms have "int (length (prices m)) < n" and "1 \<le> int (length (prices m))"
    by (simp_all add: Suc_le_eq)
  then show ?thesis
    by (simp add: findBestBuySellTimes_def rd_def loop_None)
qed

lemma nth_le_of_sorted_wrt:
  assumes "sorted_wrt (\<lambda>x y. y \<le> x) a" and "0 \<le> b" and "b < s" and "s < int (length a)"
  shows "a ! nat s \<le> a ! nat b"
proof -
  from assms have "nat b < nat s" and "nat s < length a" by simp_all
  with assms(1) show ?thesis by (simp add: sorted_wrt_iff_nth_less)
qed

section \<open>Properties of the result\<close>

text \<open>
  In the theorems below the price sequence is the first \<open>n\<close> elements of the array
  \<open>prices m\<close>, so a non-empty sequence is \<open>1 \<le> n\<close> with \<open>n \<le> int (length (prices m))\<close>; the
  spec's \<open>buyIndex\<close>, \<open>sellIndex\<close> and \<open>profit\<close> are the cells \<open>buyTime\<close> and \<open>sellTime\<close>
  and the local \<open>maxProfit\<close> at exit.
\<close>

text \<open>
  C1. For a non-empty price sequence the final \<open>maxProfit\<close> is the global maximum: no
  pair of indices \<open>b \<le> s\<close> below \<open>n\<close> has \<open>prices[s] - prices[b]\<close> above it, and some such
  pair attains it. Laws of subtraction used: \<open>x - x = 0\<close>, and antitone in the second
  argument.
\<close>

theorem global_maximum:
  fixes m :: "'a::{linorder,minus,zero} mem"
  assumes "1 \<le> n" and "n \<le> int (length (prices m))"
    and sub_self: "\<And>x :: 'a. x - x = 0"
    and sub_anti: "\<And>x y z :: 'a. y \<le> z \<Longrightarrow> x - z \<le> x - y"
  shows "\<exists>l m'. findBestBuySellTimes m n = Some (l, m') \<and>
           (\<forall>b s. 0 \<le> b \<and> b \<le> s \<and> s < n \<longrightarrow> prices m ! nat s - prices m ! nat b \<le> maxProfit l) \<and>
           (\<exists>b s. 0 \<le> b \<and> b \<le> s \<and> s < n \<and> maxProfit l = prices m ! nat s - prices m ! nat b)"
proof -
  let ?a = "prices m"
  let ?Q = "\<lambda>i c. inv_glob ?a i c \<and> inv_profit ?a c"
  have "\<exists>l m'. findBestBuySellTimes m n = Some (l, m') \<and> prices m' = ?a \<and>
           inv_min ?a n (l, m') \<and> inv_best ?a n (l, m') \<and> inv_frame m (l, m') \<and> ?Q n (l, m')"
  proof (rule call_inv_with[where Q = ?Q])
    have "\<And>b s :: int. 0 \<le> b \<and> b \<le> s \<and> s < 1 \<Longrightarrow> b = 0 \<and> s = 0" by arith
    then show "?Q 1 (\<lparr>minPrice = ?a ! 0, minTime = 0, maxProfit = 0\<rparr>, m\<lparr>buyTime := 0, sellTime := 0\<rparr>)"
      by (auto simp add: inv_glob_def inv_profit_def sub_self)
  next
    fix j d
    assume "1 \<le> j" "inv_min ?a j d" "?Q j d"
    then show "?Q (j + 1) (body j (?a ! nat j) d)"
      by (simp add: body_inv_glob body_inv_profit sub_anti)
  qed (use assms in simp_all)
  then obtain l m' where r: "findBestBuySellTimes m n = Some (l, m')"
    and b: "inv_best ?a n (l, m')" and g: "inv_glob ?a n (l, m')" and p: "inv_profit ?a (l, m')"
    by blast
  from g have ub: "\<forall>b s. 0 \<le> b \<and> b \<le> s \<and> s < n \<longrightarrow> ?a ! nat s - ?a ! nat b \<le> maxProfit l"
    by (simp add: inv_glob_def)
  from b p have "0 \<le> buyTime m' \<and> buyTime m' \<le> sellTime m' \<and> sellTime m' < n \<and>
      maxProfit l = ?a ! nat (sellTime m') - ?a ! nat (buyTime m')"
    by (simp add: inv_best_def inv_profit_def)
  then have "\<exists>b s. 0 \<le> b \<and> b \<le> s \<and> s < n \<and> maxProfit l = ?a ! nat s - ?a ! nat b"
    by blast
  with r ub show ?thesis by blast
qed

theorem global_maximum_witness:
  "\<exists>l m'. findBestBuySellTimes \<lparr>prices = [7, 1, 5, 3, 6, 4 :: int], buyTime = 0, sellTime = 0\<rparr> 6 = Some (l, m') \<and>
     [7, 1, 5, 3, 6, 4 :: int] ! nat 4 - [7, 1, 5, 3, 6, 4] ! nat 1 \<le> maxProfit l"
proof -
  let ?m = "\<lparr>prices = [7, 1, 5, 3, 6, 4 :: int], buyTime = 0, sellTime = 0\<rparr>"
  have "\<exists>l m'. findBestBuySellTimes ?m 6 = Some (l, m') \<and>
           (\<forall>b s. 0 \<le> b \<and> b \<le> s \<and> s < 6 \<longrightarrow> prices ?m ! nat s - prices ?m ! nat b \<le> maxProfit l) \<and>
           (\<exists>b s. 0 \<le> b \<and> b \<le> s \<and> s < 6 \<and> maxProfit l = prices ?m ! nat s - prices ?m ! nat b)"
    by (rule global_maximum) simp_all
  then obtain l m' where r: "findBestBuySellTimes ?m 6 = Some (l, m')"
    and ub: "\<forall>b s. 0 \<le> b \<and> b \<le> s \<and> s < 6 \<longrightarrow> prices ?m ! nat s - prices ?m ! nat b \<le> maxProfit l"
    by blast
  from ub[rule_format, of 1 4] have "prices ?m ! nat 4 - prices ?m ! nat 1 \<le> maxProfit l"
    by simp
  with r show ?thesis by simp
qed

text \<open>
  C2. For a non-empty price sequence the final \<open>maxProfit\<close> equals
  \<open>prices[sellTime] - prices[buyTime]\<close> for the two indices written. Law of subtraction
  used: \<open>x - x = 0\<close> (the initial \<open>maxProfit = 0\<close> with both indices 0).
\<close>

theorem profit_is_difference:
  fixes m :: "'a::{linorder,minus,zero} mem"
  assumes "1 \<le> n" and "n \<le> int (length (prices m))"
    and sub_self: "\<And>x :: 'a. x - x = 0"
  shows "\<exists>l m'. findBestBuySellTimes m n = Some (l, m') \<and>
           maxProfit l = prices m ! nat (sellTime m') - prices m ! nat (buyTime m')"
proof -
  let ?a = "prices m"
  let ?Q = "\<lambda>i :: int. inv_profit ?a"
  have "\<exists>l m'. findBestBuySellTimes m n = Some (l, m') \<and> prices m' = ?a \<and>
           inv_min ?a n (l, m') \<and> inv_best ?a n (l, m') \<and> inv_frame m (l, m') \<and> ?Q n (l, m')"
    by (rule call_inv_with[where Q = ?Q])
       (use assms in \<open>simp_all add: inv_profit_def[where c = "(_, _)"] body_inv_profit\<close>)
  then show ?thesis
    by (auto simp add: inv_profit_def)
qed

theorem profit_is_difference_witness:
  "\<exists>l m'. findBestBuySellTimes \<lparr>prices = [7, 1, 5, 3, 6, 4 :: int], buyTime = 0, sellTime = 0\<rparr> 6 = Some (l, m') \<and>
     maxProfit l = [7, 1, 5, 3, 6, 4] ! nat (sellTime m') - [7, 1, 5, 3, 6, 4] ! nat (buyTime m')"
  using profit_is_difference[of 6 "\<lparr>prices = [7, 1, 5, 3, 6, 4 :: int], buyTime = 0, sellTime = 0\<rparr>"]
  by simp

text \<open>
  C3. For a non-empty price sequence of length \<open>n\<close> the indices written satisfy
  \<open>0 \<le> buyTime \<le> sellTime \<le> n - 1\<close>, and the final \<open>maxProfit\<close> is not negative.
\<close>

theorem indices_in_range:
  fixes m :: "'a::{linorder,minus,zero} mem"
  assumes "1 \<le> n" and "n \<le> int (length (prices m))"
  shows "\<exists>l m'. findBestBuySellTimes m n = Some (l, m') \<and>
           0 \<le> buyTime m' \<and> buyTime m' \<le> sellTime m' \<and> sellTime m' \<le> n - 1 \<and> 0 \<le> maxProfit l"
  using call_inv[OF assms] by (auto simp add: inv_best_def)

theorem indices_in_range_witness:
  "\<exists>l m'. findBestBuySellTimes \<lparr>prices = [7, 1, 5, 3, 6, 4 :: int], buyTime = 0, sellTime = 0\<rparr> 6 = Some (l, m') \<and>
           0 \<le> buyTime m' \<and> buyTime m' \<le> sellTime m' \<and> sellTime m' \<le> 6 - 1 \<and> 0 \<le> maxProfit l"
  by (rule indices_in_range) simp_all

text \<open>
  C4. The spec lets the finder raise \<open>EmptyInputError\<close> on a sequence of length 0, as its
  only error and before any computation. The C function has no error result. Called
  with \<open>n = 0\<close> on an array that holds the single price 5 it reads \<open>prices[0]\<close>, overwrites
  both result cells with 0 and returns.
\<close>

theorem empty_input_counterexample:
  "findBestBuySellTimes \<lparr>prices = [5 :: int], buyTime = 3, sellTime = 4\<rparr> 0
     = Some (\<lparr>minPrice = 5, minTime = 0, maxProfit = 0\<rparr>, \<lparr>prices = [5], buyTime = 0, sellTime = 0\<rparr>)"
  by (simp add: findBestBuySellTimes_def loop.simps rd_def)

text \<open>
  C4, as the code has it. The call has no result exactly when it reads outside the array
  (the array has no element, or fewer than \<open>n\<close>), and that is undefined behaviour of the
  read, not an error handed to the caller. With \<open>n \<le> 0\<close> and a readable \<open>prices[0]\<close> the
  call returns with both result cells 0 and \<open>maxProfit = 0\<close>.
\<close>

theorem no_error_result:
  fixes m :: "'a::{linorder,minus,zero} mem"
  shows "(findBestBuySellTimes m n = None \<longleftrightarrow> prices m = [] \<or> int (length (prices m)) < n) \<and>
         (prices m \<noteq> [] \<and> n \<le> 0 \<longrightarrow>
            findBestBuySellTimes m n =
              Some (\<lparr>minPrice = prices m ! 0, minTime = 0, maxProfit = 0\<rparr>, m\<lparr>buyTime := 0, sellTime := 0\<rparr>))"
proof -
  have some: "findBestBuySellTimes m n \<noteq> None" if "prices m \<noteq> []" and "n \<le> int (length (prices m))"
  proof (cases "n \<le> 1")
    case True
    with that show ?thesis by (simp add: call_small)
  next
    case False
    with that call_inv[of n m] show ?thesis by auto
  qed
  have "findBestBuySellTimes m n = None \<longleftrightarrow> prices m = [] \<or> int (length (prices m)) < n"
  proof
    assume none: "findBestBuySellTimes m n = None"
    show "prices m = [] \<or> int (length (prices m)) < n"
    proof (rule ccontr)
      assume "\<not> (prices m = [] \<or> int (length (prices m)) < n)"
      then have "prices m \<noteq> []" and "n \<le> int (length (prices m))" by simp_all
      then have "findBestBuySellTimes m n \<noteq> None" by (rule some)
      with none show False by simp
    qed
  next
    assume "prices m = [] \<or> int (length (prices m)) < n"
    then show "findBestBuySellTimes m n = None" by (rule call_None)
  qed
  then show ?thesis
    by (simp add: call_small)
qed

theorem no_error_result_witness:
  "findBestBuySellTimes \<lparr>prices = [5 :: int], buyTime = 3, sellTime = 4\<rparr> 0 \<noteq> None \<and>
   findBestBuySellTimes \<lparr>prices = [5 :: int], buyTime = 3, sellTime = 4\<rparr> 0 =
     Some (\<lparr>minPrice = 5, minTime = 0, maxProfit = 0\<rparr>, \<lparr>prices = [5], buyTime = 0, sellTime = 0\<rparr>)"
  using no_error_result[of "\<lparr>prices = [5 :: int], buyTime = 3, sellTime = 4\<rparr>" 0] by simp

text \<open>
  C5. For a non-empty price sequence in which no later price exceeds an earlier one
  (non-increasing, all equal, or a single element) the call returns with
  \<open>buyTime = sellTime = 0\<close> and \<open>maxProfit = 0\<close>. Law of subtraction used: a positive
  difference \<open>y - x\<close> needs \<open>x < y\<close>.
\<close>

theorem never_rising:
  fixes m :: "'a::{linorder,minus,zero} mem"
  assumes "1 \<le> n" and "n \<le> int (length (prices m))"
    and sub_pos: "\<And>x y :: 'a. 0 < y - x \<Longrightarrow> x < y"
    and flat: "\<forall>b s. 0 \<le> b \<and> b < s \<and> s < n \<longrightarrow> prices m ! nat s \<le> prices m ! nat b"
  shows "\<exists>l m'. findBestBuySellTimes m n = Some (l, m') \<and>
           buyTime m' = 0 \<and> sellTime m' = 0 \<and> maxProfit l = 0"
proof -
  let ?a = "prices m"
  let ?Q = "\<lambda>i :: int. inv_pos ?a"
  have "\<exists>l m'. findBestBuySellTimes m n = Some (l, m') \<and> prices m' = ?a \<and>
           inv_min ?a n (l, m') \<and> inv_best ?a n (l, m') \<and> inv_frame m (l, m') \<and> ?Q n (l, m')"
    by (rule call_inv_with[where Q = ?Q])
       (use assms in \<open>simp_all add: inv_pos_def[where c = "(_, _)"] body_inv_pos\<close>)
  then obtain l m' where r: "findBestBuySellTimes m n = Some (l, m')"
    and b: "inv_best ?a n (l, m')" and p: "inv_pos ?a (l, m')"
    by blast
  have "\<not> (buyTime m' < sellTime m' \<and> ?a ! nat (buyTime m') < ?a ! nat (sellTime m'))"
  proof
    assume h: "buyTime m' < sellTime m' \<and> ?a ! nat (buyTime m') < ?a ! nat (sellTime m')"
    with b have "0 \<le> buyTime m' \<and> buyTime m' < sellTime m' \<and> sellTime m' < n"
      by (simp add: inv_best_def)
    with flat have "?a ! nat (sellTime m') \<le> ?a ! nat (buyTime m')" by blast
    with h show False by (auto dest: leD)
  qed
  with p have "buyTime m' = 0 \<and> sellTime m' = 0 \<and> maxProfit l = 0"
    by (auto simp add: inv_pos_def)
  with r show ?thesis by blast
qed

theorem never_rising_witness:
  "(\<exists>l m'. findBestBuySellTimes \<lparr>prices = [7, 6, 4, 3, 1 :: int], buyTime = 2, sellTime = 3\<rparr> 5 = Some (l, m') \<and>
           buyTime m' = 0 \<and> sellTime m' = 0 \<and> maxProfit l = 0) \<and>
   (\<exists>l m'. findBestBuySellTimes \<lparr>prices = [5 :: int], buyTime = 2, sellTime = 3\<rparr> 1 = Some (l, m') \<and>
           buyTime m' = 0 \<and> sellTime m' = 0 \<and> maxProfit l = 0)"
proof -
  let ?xs = "[7, 6, 4, 3, 1 :: int]"
  have srt: "sorted_wrt (\<lambda>x y. y \<le> x) ?xs" by simp
  have "\<forall>b s :: int. 0 \<le> b \<and> b < s \<and> s < 5 \<longrightarrow> ?xs ! nat s \<le> ?xs ! nat b"
  proof (intro allI impI)
    fix b s :: int
    assume "0 \<le> b \<and> b < s \<and> s < 5"
    then show "?xs ! nat s \<le> ?xs ! nat b"
      by (intro nth_le_of_sorted_wrt[OF srt]) simp_all
  qed
  then have descending: "\<exists>l m'. findBestBuySellTimes \<lparr>prices = ?xs, buyTime = 2, sellTime = 3\<rparr> 5 = Some (l, m') \<and>
           buyTime m' = 0 \<and> sellTime m' = 0 \<and> maxProfit l = 0"
    using never_rising[of 5 "\<lparr>prices = ?xs, buyTime = 2, sellTime = 3\<rparr>"] by simp
  have "\<forall>b s :: int. 0 \<le> b \<and> b < s \<and> s < 1 \<longrightarrow> [5 :: int] ! nat s \<le> [5] ! nat b"
    by arith
  then have single: "\<exists>l m'. findBestBuySellTimes \<lparr>prices = [5 :: int], buyTime = 2, sellTime = 3\<rparr> 1 = Some (l, m') \<and>
           buyTime m' = 0 \<and> sellTime m' = 0 \<and> maxProfit l = 0"
    using never_rising[of 1 "\<lparr>prices = [5 :: int], buyTime = 2, sellTime = 3\<rparr>"] by simp
  from descending single show ?thesis by blast
qed

section \<open>Scenarios\<close>

text \<open>
  The scenarios are evaluated in any ordered ring (the integers, the rationals, the
  reals); \<open>float\<close> holds these small integers and their differences exactly.
\<close>

text \<open>
  C6. On the prices 7, 1, 5, 3, 6, 4 the function sets \<open>buyTime = 1\<close> and
  \<open>sellTime = 4\<close>, with a final \<open>maxProfit\<close> of 5, whatever the result cells held before.
\<close>

theorem scenario_7_1_5_3_6_4:
  "findBestBuySellTimes \<lparr>prices = [7, 1, 5, 3, 6, 4 :: 'a::linordered_idom], buyTime = b0, sellTime = s0\<rparr> 6
     = Some (\<lparr>minPrice = 1, minTime = 1, maxProfit = 5\<rparr>,
             \<lparr>prices = [7, 1, 5, 3, 6, 4], buyTime = 1, sellTime = 4\<rparr>)"
  by (simp add: findBestBuySellTimes_def loop.simps rd_def body_def)

text \<open>
  C7. On the prices 1, 2, 1, 2, 1, 2 the function sets \<open>buyTime = 0\<close> and \<open>sellTime = 1\<close>
  with a final \<open>maxProfit\<close> of 1, and \<open>minTime\<close> is still 0 at exit: the equal troughs at
  2 and 4 do not replace the first one (\<open><\<close> is strict), and the later pairs with the same
  profit 1, such as (2, 3), (4, 5) and (0, 3), do not replace the first one (\<open>>\<close> is
  strict).
\<close>

theorem scenario_1_2_1_2_1_2:
  "findBestBuySellTimes \<lparr>prices = [1, 2, 1, 2, 1, 2 :: 'a::linordered_idom], buyTime = b0, sellTime = s0\<rparr> 6
     = Some (\<lparr>minPrice = 1, minTime = 0, maxProfit = 1\<rparr>,
             \<lparr>prices = [1, 2, 1, 2, 1, 2], buyTime = 0, sellTime = 1\<rparr>)
   \<and> [1, 2, 1, 2, 1, 2 :: 'a] ! 3 - [1, 2, 1, 2, 1, 2] ! 2 = 1
   \<and> [1, 2, 1, 2, 1, 2 :: 'a] ! 5 - [1, 2, 1, 2, 1, 2] ! 4 = 1
   \<and> [1, 2, 1, 2, 1, 2 :: 'a] ! 3 - [1, 2, 1, 2, 1, 2] ! 0 = 1"
  by (simp add: findBestBuySellTimes_def loop.simps rd_def body_def)

section \<open>Effects and the caller's test\<close>

text \<open>
  C8. The function is a pure function of the price sequence. The call leaves the array
  as it was and changes memory in the two result cells only; the result does not depend
  on what the result cells held at entry; and a second call, made in the memory the first
  one left, yields the same result again.
\<close>

theorem pure_function:
  fixes m :: "'a::{linorder,minus,zero} mem"
  assumes "prices m \<noteq> []" and "n \<le> int (length (prices m))"
  shows "\<exists>l m'. findBestBuySellTimes m n = Some (l, m') \<and>
           prices m' = prices m \<and>
           m' = m\<lparr>buyTime := buyTime m', sellTime := sellTime m'\<rparr> \<and>
           findBestBuySellTimes m' n = Some (l, m') \<and>
           (\<forall>b s. findBestBuySellTimes (m\<lparr>buyTime := b, sellTime := s\<rparr>) n = Some (l, m'))"
proof -
  have "\<exists>l m'. findBestBuySellTimes m n = Some (l, m') \<and> inv_frame m (l, m')"
  proof (cases "n \<le> 1")
    case True
    with assms show ?thesis by (simp add: call_small inv_frame_def)
  next
    case False
    with assms call_inv[of n m] show ?thesis by auto
  qed
  then obtain l m' where r: "findBestBuySellTimes m n = Some (l, m')"
    and f: "m' = m\<lparr>buyTime := buyTime m', sellTime := sellTime m'\<rparr>"
    by (auto simp add: inv_frame_def)
  from f have p: "prices m' = prices m"
    by (metis mem.select_convs(1) mem.surjective mem.update_convs(2,3))
  from f r have again: "findBestBuySellTimes m' n = Some (l, m')"
    by (metis call_cells)
  from r have "\<forall>b s. findBestBuySellTimes (m\<lparr>buyTime := b, sellTime := s\<rparr>) n = Some (l, m')"
    by (simp add: call_cells)
  with r f p again show ?thesis by blast
qed

theorem pure_function_witness:
  "\<exists>l m'. findBestBuySellTimes \<lparr>prices = [7, 1, 5, 3, 6, 4 :: int], buyTime = 8, sellTime = 9\<rparr> 6 = Some (l, m') \<and>
           prices m' = [7, 1, 5, 3, 6, 4] \<and>
           findBestBuySellTimes m' 6 = Some (l, m') \<and>
           findBestBuySellTimes \<lparr>prices = [7, 1, 5, 3, 6, 4 :: int], buyTime = 0, sellTime = 0\<rparr> 6 = Some (l, m')"
proof -
  let ?m = "\<lparr>prices = [7, 1, 5, 3, 6, 4 :: int], buyTime = 8, sellTime = 9\<rparr>"
  have "\<exists>l m'. findBestBuySellTimes ?m 6 = Some (l, m') \<and>
           prices m' = prices ?m \<and>
           m' = ?m\<lparr>buyTime := buyTime m', sellTime := sellTime m'\<rparr> \<and>
           findBestBuySellTimes m' 6 = Some (l, m') \<and>
           (\<forall>b s. findBestBuySellTimes (?m\<lparr>buyTime := b, sellTime := s\<rparr>) 6 = Some (l, m'))"
    by (rule pure_function) simp_all
  then obtain l m' where "findBestBuySellTimes ?m 6 = Some (l, m')" "prices m' = prices ?m"
    "findBestBuySellTimes m' 6 = Some (l, m')"
    and a: "\<forall>b s. findBestBuySellTimes (?m\<lparr>buyTime := b, sellTime := s\<rparr>) 6 = Some (l, m')"
    by blast
  moreover from a[rule_format, of 0 0]
  have "findBestBuySellTimes \<lparr>prices = [7, 1, 5, 3, 6, 4 :: int], buyTime = 0, sellTime = 0\<rparr> 6 = Some (l, m')"
    by simp
  ultimately show ?thesis by simp
qed

text \<open>
  C9. For a non-empty price sequence the final \<open>maxProfit\<close> is positive exactly when
  \<open>buyTime < sellTime\<close>; and \<open>buyTime = sellTime\<close> exactly when there is no pair \<open>b < s\<close>
  below \<open>n\<close> with \<open>prices[b] < prices[s]\<close>. So the test \<open>buyTime < sellTime\<close> in \<open>main\<close>
  holds exactly when a profitable trade exists. Laws of subtraction used: \<open>y - x\<close> is
  positive exactly when \<open>x < y\<close>, and antitone in the second argument.
\<close>

theorem profitable_iff_buy_before_sell:
  fixes m :: "'a::{linorder,minus,zero} mem"
  assumes "1 \<le> n" and "n \<le> int (length (prices m))"
    and sub_pos: "\<And>x y :: 'a. 0 < y - x \<longleftrightarrow> x < y"
    and sub_anti: "\<And>x y z :: 'a. y \<le> z \<Longrightarrow> x - z \<le> x - y"
  shows "\<exists>l m'. findBestBuySellTimes m n = Some (l, m') \<and>
           (0 < maxProfit l \<longleftrightarrow> buyTime m' < sellTime m') \<and>
           (buyTime m' = sellTime m' \<longleftrightarrow>
              \<not> (\<exists>b s. 0 \<le> b \<and> b < s \<and> s < n \<and> prices m ! nat b < prices m ! nat s)) \<and>
           (buyTime m' < sellTime m' \<longleftrightarrow>
              (\<exists>b s. 0 \<le> b \<and> b < s \<and> s < n \<and> prices m ! nat b < prices m ! nat s))"
proof -
  let ?a = "prices m"
  let ?Q = "\<lambda>i c. inv_glob ?a i c \<and> inv_pos ?a c"
  have self: "x - x \<le> 0" for x :: 'a
    using sub_pos[of x x] by (simp add: not_less)
  have pos_imp: "x < y" if "0 < y - x" for x y :: 'a
    using that by (simp add: sub_pos)
  have "\<exists>l m'. findBestBuySellTimes m n = Some (l, m') \<and> prices m' = ?a \<and>
           inv_min ?a n (l, m') \<and> inv_best ?a n (l, m') \<and> inv_frame m (l, m') \<and> ?Q n (l, m')"
  proof (rule call_inv_with[where Q = ?Q])
    have "\<And>b s :: int. 0 \<le> b \<and> b \<le> s \<and> s < 1 \<Longrightarrow> b = 0 \<and> s = 0" by arith
    then show "?Q 1 (\<lparr>minPrice = ?a ! 0, minTime = 0, maxProfit = 0\<rparr>, m\<lparr>buyTime := 0, sellTime := 0\<rparr>)"
      by (auto simp add: inv_glob_def inv_pos_def self)
  next
    fix j d
    assume "1 \<le> j" "inv_min ?a j d" "inv_best ?a j d" "?Q j d"
    then show "?Q (j + 1) (body j (?a ! nat j) d)"
      using body_inv_pos[of ?a j d, OF pos_imp] by (simp add: body_inv_glob sub_anti)
  qed (use assms in simp_all)
  then obtain l m' where r: "findBestBuySellTimes m n = Some (l, m')"
    and b: "inv_best ?a n (l, m')" and g: "inv_glob ?a n (l, m')" and p: "inv_pos ?a (l, m')"
    by blast
  from p have one: "0 < maxProfit l \<longleftrightarrow> buyTime m' < sellTime m'"
    by (auto simp add: inv_pos_def)
  have two: "buyTime m' = sellTime m' \<longleftrightarrow>
              \<not> (\<exists>b s. 0 \<le> b \<and> b < s \<and> s < n \<and> ?a ! nat b < ?a ! nat s)"
  proof
    assume "buyTime m' = sellTime m'"
    with p have z: "maxProfit l = 0" by (auto simp add: inv_pos_def)
    show "\<not> (\<exists>b s. 0 \<le> b \<and> b < s \<and> s < n \<and> ?a ! nat b < ?a ! nat s)"
    proof
      assume "\<exists>b s. 0 \<le> b \<and> b < s \<and> s < n \<and> ?a ! nat b < ?a ! nat s"
      then obtain b s where bs: "0 \<le> b \<and> b < s \<and> s < n" and lt: "?a ! nat b < ?a ! nat s"
        by blast
      from bs have "0 \<le> b \<and> b \<le> s \<and> s < n" by simp
      with g z have "?a ! nat s - ?a ! nat b \<le> 0"
        unfolding inv_glob_def by force
      moreover from lt have "0 < ?a ! nat s - ?a ! nat b" by (simp add: sub_pos)
      ultimately show False by (auto dest: leD)
    qed
  next
    assume none: "\<not> (\<exists>b s. 0 \<le> b \<and> b < s \<and> s < n \<and> ?a ! nat b < ?a ! nat s)"
    have "\<not> (buyTime m' < sellTime m' \<and> ?a ! nat (buyTime m') < ?a ! nat (sellTime m'))"
    proof
      assume h: "buyTime m' < sellTime m' \<and> ?a ! nat (buyTime m') < ?a ! nat (sellTime m')"
      with b have "0 \<le> buyTime m' \<and> buyTime m' < sellTime m' \<and> sellTime m' < n"
        by (simp add: inv_best_def)
      with h none show False by blast
    qed
    with p show "buyTime m' = sellTime m'" by (auto simp add: inv_pos_def)
  qed
  from b have "buyTime m' \<le> sellTime m'"
    by (simp add: inv_best_def)
  then have "buyTime m' < sellTime m' \<longleftrightarrow> buyTime m' \<noteq> sellTime m'"
    by arith
  with two have three: "buyTime m' < sellTime m' \<longleftrightarrow>
              (\<exists>b s. 0 \<le> b \<and> b < s \<and> s < n \<and> ?a ! nat b < ?a ! nat s)"
    by blast
  from r one two three show ?thesis by blast
qed

theorem profitable_iff_buy_before_sell_witness:
  "\<exists>l m'. findBestBuySellTimes \<lparr>prices = [7, 1, 5, 3, 6, 4 :: int], buyTime = 0, sellTime = 0\<rparr> 6 = Some (l, m') \<and>
     0 < maxProfit l \<and> buyTime m' < sellTime m' \<and> buyTime m' \<noteq> sellTime m'"
proof -
  let ?m = "\<lparr>prices = [7, 1, 5, 3, 6, 4 :: int], buyTime = 0, sellTime = 0\<rparr>"
  have "\<exists>l m'. findBestBuySellTimes ?m 6 = Some (l, m') \<and>
           (0 < maxProfit l \<longleftrightarrow> buyTime m' < sellTime m') \<and>
           (buyTime m' = sellTime m' \<longleftrightarrow>
              \<not> (\<exists>b s. 0 \<le> b \<and> b < s \<and> s < 6 \<and> prices ?m ! nat b < prices ?m ! nat s)) \<and>
           (buyTime m' < sellTime m' \<longleftrightarrow>
              (\<exists>b s. 0 \<le> b \<and> b < s \<and> s < 6 \<and> prices ?m ! nat b < prices ?m ! nat s))"
    by (rule profitable_iff_buy_before_sell) simp_all
  then obtain l m' where r: "findBestBuySellTimes ?m 6 = Some (l, m')"
    and one: "0 < maxProfit l \<longleftrightarrow> buyTime m' < sellTime m'"
    and three: "buyTime m' < sellTime m' \<longleftrightarrow>
              (\<exists>b s. 0 \<le> b \<and> b < s \<and> s < 6 \<and> prices ?m ! nat b < prices ?m ! nat s)"
    by blast
  have "0 \<le> (1::int) \<and> (1::int) < 4 \<and> (4::int) < 6 \<and> prices ?m ! nat 1 < prices ?m ! nat 4"
    by simp
  then have "\<exists>b s. 0 \<le> b \<and> b < s \<and> s < 6 \<and> prices ?m ! nat b < prices ?m ! nat s"
    by blast
  with three have lt: "buyTime m' < sellTime m'" by blast
  with one r show ?thesis by simp
qed

text \<open>
  C10. For a non-empty price sequence with a positive final \<open>maxProfit\<close>, the price at
  \<open>buyTime\<close> is the minimum of \<open>prices[0..sellTime]\<close>, and \<open>buyTime\<close> is the earliest
  index in that range that holds it.
\<close>

theorem buy_is_earliest_minimum:
  fixes m :: "'a::{linorder,minus,zero} mem"
  assumes "1 \<le> n" and "n \<le> int (length (prices m))"
  shows "\<exists>l m'. findBestBuySellTimes m n = Some (l, m') \<and>
           (0 < maxProfit l \<longrightarrow>
              0 \<le> buyTime m' \<and> buyTime m' \<le> sellTime m' \<and>
              prices m ! nat (buyTime m') = Min (set (take (nat (sellTime m') + 1) (prices m))) \<and>
              (\<forall>k. 0 \<le> k \<and> k \<le> sellTime m' \<and> prices m ! nat k = prices m ! nat (buyTime m')
                   \<longrightarrow> buyTime m' \<le> k))"
proof -
  let ?a = "prices m"
  from call_inv[OF assms] obtain l m' where r: "findBestBuySellTimes m n = Some (l, m')"
    and b: "inv_best ?a n (l, m')"
    by blast
  let ?b = "buyTime m'" and ?s = "sellTime m'"
  from b have rng: "0 \<le> ?b" "?b \<le> ?s" "?s < n"
    and low: "\<forall>k. 0 \<le> k \<and> k \<le> ?s \<longrightarrow> ?a ! nat ?b \<le> ?a ! nat k"
    and first: "\<forall>k. 0 \<le> k \<and> k < ?b \<longrightarrow> ?a ! nat ?b < ?a ! nat k"
    by (simp_all add: inv_best_def)
  from rng assms have len: "nat ?s + 1 \<le> length ?a" by simp
  have "Min (set (take (nat ?s + 1) ?a)) = ?a ! nat ?b"
  proof (rule Min_eqI)
    show "finite (set (take (nat ?s + 1) ?a))" by simp
  next
    fix y
    assume "y \<in> set (take (nat ?s + 1) ?a)"
    then obtain j where j: "j < nat ?s + 1" and y: "y = ?a ! j"
      using len by (auto simp add: in_set_conv_nth)
    from j rng have "0 \<le> int j \<and> int j \<le> ?s" by simp
    with low have "?a ! nat ?b \<le> ?a ! nat (int j)" by blast
    with y show "?a ! nat ?b \<le> y" by simp
  next
    from rng have "nat ?b < nat ?s + 1" by simp
    with len have "take (nat ?s + 1) ?a ! nat ?b = ?a ! nat ?b" and "nat ?b < length (take (nat ?s + 1) ?a)"
      by simp_all
    then show "?a ! nat ?b \<in> set (take (nat ?s + 1) ?a)"
      by (metis nth_mem)
  qed
  moreover have "\<forall>k. 0 \<le> k \<and> k \<le> ?s \<and> ?a ! nat k = ?a ! nat ?b \<longrightarrow> ?b \<le> k"
  proof (intro allI impI)
    fix k
    assume k: "0 \<le> k \<and> k \<le> ?s \<and> ?a ! nat k = ?a ! nat ?b"
    show "?b \<le> k"
    proof (rule ccontr)
      assume "\<not> ?b \<le> k"
      then have "k < ?b" by simp
      with k first have "?a ! nat ?b < ?a ! nat k" by blast
      with k show False by simp
    qed
  qed
  ultimately show ?thesis using r rng by simp
qed

theorem buy_is_earliest_minimum_witness:
  "\<exists>l m'. findBestBuySellTimes \<lparr>prices = [3, 1, 4, 1, 5 :: int], buyTime = 0, sellTime = 0\<rparr> 5 = Some (l, m') \<and>
     0 < maxProfit l \<and> buyTime m' = 1 \<and> sellTime m' = 4 \<and>
     [3, 1, 4, 1, 5 :: int] ! nat (buyTime m') = Min (set (take (nat (sellTime m') + 1) [3, 1, 4, 1, 5])) \<and>
     [3, 1, 4, 1, 5 :: int] ! nat 3 = [3, 1, 4, 1, 5] ! nat (buyTime m') \<and> buyTime m' \<le> 3"
proof -
  let ?m = "\<lparr>prices = [3, 1, 4, 1, 5 :: int], buyTime = 0, sellTime = 0\<rparr>"
  have ev: "findBestBuySellTimes ?m 5 = Some (\<lparr>minPrice = 1, minTime = 1, maxProfit = 4\<rparr>,
      \<lparr>prices = [3, 1, 4, 1, 5], buyTime = 1, sellTime = 4\<rparr>)"
    by (simp add: findBestBuySellTimes_def loop.simps rd_def body_def)
  have "\<exists>l m'. findBestBuySellTimes ?m 5 = Some (l, m') \<and>
           (0 < maxProfit l \<longrightarrow>
              0 \<le> buyTime m' \<and> buyTime m' \<le> sellTime m' \<and>
              prices ?m ! nat (buyTime m') = Min (set (take (nat (sellTime m') + 1) (prices ?m))) \<and>
              (\<forall>k. 0 \<le> k \<and> k \<le> sellTime m' \<and> prices ?m ! nat k = prices ?m ! nat (buyTime m')
                   \<longrightarrow> buyTime m' \<le> k))"
    by (rule buy_is_earliest_minimum) simp_all
  with ev have "prices ?m ! nat 1 = Min (set (take (nat 4 + 1) (prices ?m)))"
    and e: "\<forall>k. 0 \<le> k \<and> k \<le> 4 \<and> prices ?m ! nat k = prices ?m ! nat 1 \<longrightarrow> 1 \<le> k"
    by simp_all
  moreover from e[rule_format, of 3] have "(1::int) \<le> 3" by simp
  ultimately show ?thesis using ev by simp
qed

end
